theory Spec2Isabelle
  imports Complex_Main
begin

section \<open>Python values and exceptions\<close>

text \<open>
  What a call of the source may raise. \<open>Exception msg\<close> stands for every instance of
  Python's class \<open>Exception\<close> (AttributeError, TypeError, aiohttp.ClientError, ...);
  \<open>KeyboardInterrupt\<close> and \<open>CancelledError\<close> derive from \<open>BaseException\<close> only, so an
  \<open>except Exception\<close> clause does not catch them.
\<close>

datatype exn = Exception string | KeyboardInterrupt | CancelledError

fun is_Exception :: "exn \<Rightarrow> bool" where
  "is_Exception (Exception _) = True"
| "is_Exception KeyboardInterrupt = False"
| "is_Exception CancelledError = False"

text \<open>
  A Python float, as far as its comparison with the integer \<open>0\<close> goes: a finite double is
  a rational number, and the three special values compare as IEEE 754 says.
\<close>

datatype pyfloat = Finite rat | PosInf | NegInf | NaN

text \<open>The values a decoded JSON telemetry document can hold under a key.\<close>

datatype pyval =
    PyNone
  | PyBool bool
  | PyInt int
  | PyFloat pyfloat
  | PyStr string
  | PyList "pyval list"

text \<open>\<open>isinstance(v, (int, float))\<close>: \<open>bool\<close> is a subclass of \<open>int\<close>.\<close>

fun isinstance_int_float :: "pyval \<Rightarrow> bool" where
  "isinstance_int_float (PyBool _) = True"
| "isinstance_int_float (PyInt _) = True"
| "isinstance_int_float (PyFloat _) = True"
| "isinstance_int_float PyNone = False"
| "isinstance_int_float (PyStr _) = False"
| "isinstance_int_float (PyList _) = False"

fun float_gt_zero :: "pyfloat \<Rightarrow> bool" where
  "float_gt_zero (Finite q) = (0 < q)"
| "float_gt_zero PosInf = True"
| "float_gt_zero NegInf = False"
| "float_gt_zero NaN = False"

fun float_lt_zero :: "pyfloat \<Rightarrow> bool" where
  "float_lt_zero (Finite q) = (q < 0)"
| "float_lt_zero PosInf = False"
| "float_lt_zero NegInf = True"
| "float_lt_zero NaN = False"

text \<open>
  \<open>v > 0\<close> and \<open>v < 0\<close>: \<open>True\<close> counts as 1 and \<open>False\<close> as 0; comparing \<open>None\<close>, a
  string or a list with an integer raises TypeError.
\<close>

fun py_gt_zero :: "pyval \<Rightarrow> exn + bool" where
  "py_gt_zero (PyBool b) = Inr b"
| "py_gt_zero (PyInt i) = Inr (0 < i)"
| "py_gt_zero (PyFloat f) = Inr (float_gt_zero f)"
| "py_gt_zero PyNone = Inl (Exception ''TypeError'')"
| "py_gt_zero (PyStr _) = Inl (Exception ''TypeError'')"
| "py_gt_zero (PyList _) = Inl (Exception ''TypeError'')"

fun py_lt_zero :: "pyval \<Rightarrow> exn + bool" where
  "py_lt_zero (PyBool b) = Inr False"
| "py_lt_zero (PyInt i) = Inr (i < 0)"
| "py_lt_zero (PyFloat f) = Inr (float_lt_zero f)"
| "py_lt_zero PyNone = Inl (Exception ''TypeError'')"
| "py_lt_zero (PyStr _) = Inl (Exception ''TypeError'')"
| "py_lt_zero (PyList _) = Inl (Exception ''TypeError'')"

text \<open>\<open>str(i)\<close> of a Python int: decimal digits, with a minus sign when negative.\<close>

definition digit_char :: "nat \<Rightarrow> char" where
  "digit_char d = ''0123456789'' ! (d mod 10)"

function str_nat :: "nat \<Rightarrow> string" where
  "str_nat n = (if n < 10 then [digit_char n] else str_nat (n div 10) @ [digit_char (n mod 10)])"
  by pat_completeness auto
termination
  by (relation "measure id") auto

declare str_nat.simps [simp del]

definition py_str_int :: "int \<Rightarrow> string" where
  "py_str_int i = (if i < 0 then CHR ''-'' # str_nat (nat (- i)) else str_nat (nat i))"

text \<open>\<open>d.get(k, default)\<close> on a dict held as an association list.\<close>

definition dict_get :: "(string \<times> pyval) list \<Rightarrow> string \<Rightarrow> pyval \<Rightarrow> pyval" where
  "dict_get d k dflt = (case map_of d k of None \<Rightarrow> dflt | Some v \<Rightarrow> v)"

text \<open>Sequencing of calls that may raise, and the clause \<open>except Exception\<close>.\<close>

definition and_then :: "exn + 'a \<Rightarrow> ('a \<Rightarrow> exn + 'b) \<Rightarrow> exn + 'b" where
  "and_then r f = (case r of Inl e \<Rightarrow> Inl e | Inr v \<Rightarrow> f v)"

definition raising :: "exn option \<Rightarrow> exn + unit" where
  "raising r = (case r of Some e \<Rightarrow> Inl e | None \<Rightarrow> Inr ())"

definition except_Exception :: "exn + 'a \<Rightarrow> (exn \<Rightarrow> exn + 'a) \<Rightarrow> exn + 'a" where
  "except_Exception r handler =
     (case r of Inl e \<Rightarrow> (if is_Exception e then handler e else Inl e) | Inr v \<Rightarrow> Inr v)"

section \<open>The collaborators, as one tick observes them\<close>

text \<open>
  The charger client (pymyenergi's Zappi): whether \<open>refresh()\<close> raises, and what reading
  each property gives during this tick.
\<close>

record zappi_client =
  refresh :: "exn option"
  status :: "exn + string"
  plug_status :: "exn + string"
  charge_mode :: "exn + string"

text \<open>
  The battery-cloud client (sigen's Sigen) and the HTTP session opened on it:
  \<open>get_energy_flow()\<close> raises, returns \<open>None\<close> or returns a dict; \<open>session\<close> is
  \<open>import aiohttp\<close> with the opening of the ClientSession, \<open>put\<close> the PUT itself and
  \<open>response_json\<close> the decoding of its answer.
\<close>

record sigen_client =
  get_energy_flow :: "exn + (string \<times> pyval) list option"
  ensure_valid_token :: "exn option"
  BASE_URL :: string
  station_id :: pyval
  headers :: "(string \<times> string) list"
  session :: "exn option"
  put :: "exn option"
  response_json :: "exn + pyval"

record request =
  http_method :: string
  url :: string
  req_headers :: "(string \<times> string) list"
  json :: "(string \<times> pyval) list"

text \<open>The calls a tick makes on the outside world, in order.\<close>

datatype event =
    Connect
  | ZappiRefresh
  | GetEnergyFlow
  | SetInstantManualCharge bool int int string
  | HttpRequest request
  | Sleep int

fun is_override_event :: "event \<Rightarrow> bool" where
  "is_override_event (SetInstantManualCharge _ _ _ _) = True"
| "is_override_event (HttpRequest _) = True"
| "is_override_event Connect = False"
| "is_override_event ZappiRefresh = False"
| "is_override_event GetEnergyFlow = False"
| "is_override_event (Sleep _) = False"

fun is_sleep :: "event \<Rightarrow> bool" where
  "is_sleep (Sleep _) = True"
| "is_sleep Connect = False"
| "is_sleep ZappiRefresh = False"
| "is_sleep GetEnergyFlow = False"
| "is_sleep (SetInstantManualCharge _ _ _ _) = False"
| "is_sleep (HttpRequest _) = False"

fun is_override_call :: "event \<Rightarrow> bool" where
  "is_override_call (SetInstantManualCharge _ _ _ _) = True"
| "is_override_call (HttpRequest _) = False"
| "is_override_call Connect = False"
| "is_override_call ZappiRefresh = False"
| "is_override_call GetEnergyFlow = False"
| "is_override_call (Sleep _) = False"

definition override_calls :: "event list \<Rightarrow> event list" where
  "override_calls evs = filter is_override_call evs"

section \<open>BatterySitter\<close>

text \<open>The fields of \<open>BatterySitter\<close> that \<open>monitor_loop\<close> reads or writes.\<close>

record sitter =
  charging_power :: int
  poll_interval :: int
  is_charging :: bool
  running :: bool
  manual_charge_enabled :: bool
  last_connection_time :: "int option"

text \<open>\<open>__init__\<close>; times are microseconds, \<open>timedelta(hours=8)\<close> is the interval.\<close>

definition init :: "int \<Rightarrow> int \<Rightarrow> sitter" where
  "init kw seconds =
     \<lparr>charging_power = kw, poll_interval = seconds, is_charging = False,
      running = False, manual_charge_enabled = False, last_connection_time = None\<rparr>"

definition reconnect_interval :: int where
  "reconnect_interval = 8 * 3600 * 1000000"

subsection \<open>get_zappi_charging_status\<close>

definition charging_statuses :: "string list" where
  "charging_statuses = [''Charging'', ''Boosting'']"

text \<open>
  The body of the \<open>try\<close>: the refresh, the conjunction (the plug state is read only
  when the first conjunct holds), then the debug line, whose f-string reads the three
  properties.
\<close>

definition zappi_try :: "zappi_client \<Rightarrow> exn + bool" where
  "zappi_try z =
     and_then (raising (refresh z)) (\<lambda>_.
     and_then (status z) (\<lambda>s.
     and_then (if s \<in> set charging_statuses
               then and_then (plug_status z) (\<lambda>p. Inr (p = ''Charging''))
               else Inr False) (\<lambda>charging.
     and_then (status z) (\<lambda>_.
     and_then (plug_status z) (\<lambda>_.
     and_then (charge_mode z) (\<lambda>_.
     Inr charging))))))"

definition get_zappi_charging_status :: "zappi_client \<Rightarrow> event list \<times> (exn + bool)" where
  "get_zappi_charging_status z =
     ([ZappiRefresh], except_Exception (zappi_try z) (\<lambda>e. Inr False))"

subsection \<open>get_battery_info\<close>

text \<open>
  The handler's inner \<open>try\<close> only logs the client's last raw response and swallows what
  that raises; it is left out.
\<close>

definition get_battery_info ::
  "sigen_client \<Rightarrow> event list \<times> (exn + (string \<times> pyval) list)" where
  "get_battery_info sg =
     ([GetEnergyFlow],
      except_Exception
        (and_then (get_energy_flow sg) (\<lambda>energy_flow.
           case energy_flow of None \<Rightarrow> Inr [] | Some d \<Rightarrow> Inr d))
        (\<lambda>e. Inr []))"

subsection \<open>set_instant_manual_charge\<close>

definition manual_charge_request ::
  "sigen_client \<Rightarrow> bool \<Rightarrow> int \<Rightarrow> int \<Rightarrow> string \<Rightarrow> request" where
  "manual_charge_request sg enable duration_minutes power_kw mode =
     \<lparr>http_method = ''PUT'',
      url = BASE_URL sg @ ''device/energy-profile/instant/manunal'',
      req_headers = headers sg,
      json = [(''enable'', PyBool enable),
              (''stationId'', station_id sg),
              (''mode'', PyStr mode),
              (''duration'', PyStr (py_str_int duration_minutes)),
              (''powerLimitation'', PyStr (py_str_int power_kw))]\<rparr>"

text \<open>
  The body of the \<open>try\<close>, lines 220 to 246: the token, the session, the PUT and the
  decoding of the answer; the request counts as sent once \<open>session.put\<close> is entered.
\<close>

definition manual_charge_try ::
  "sigen_client \<Rightarrow> bool \<Rightarrow> int \<Rightarrow> int \<Rightarrow> string \<Rightarrow> event list \<times> (exn + pyval)" where
  "manual_charge_try sg enable duration_minutes power_kw mode =
     (case ensure_valid_token sg of
        Some e \<Rightarrow> ([], Inl e)
      | None \<Rightarrow>
         (let req = HttpRequest (manual_charge_request sg enable duration_minutes power_kw mode)
          in case session sg of
               Some e \<Rightarrow> ([], Inl e)
             | None \<Rightarrow>
                (case put sg of
                   Some e \<Rightarrow> ([req], Inl e)
                 | None \<Rightarrow> ([req], response_json sg))))"

text \<open>
  The handler logs and raises again what it caught; an exception outside \<open>Exception\<close>
  passes it untouched.
\<close>

definition set_instant_manual_charge ::
  "sigen_client \<Rightarrow> bool \<Rightarrow> int \<Rightarrow> int \<Rightarrow> string \<Rightarrow> event list \<times> (exn + pyval)" where
  "set_instant_manual_charge sg enable duration_minutes power_kw mode =
     (case manual_charge_try sg enable duration_minutes power_kw mode of
        (evs, r) \<Rightarrow>
          (SetInstantManualCharge enable duration_minutes power_kw mode # evs,
           except_Exception r (\<lambda>e. Inl e)))"

text \<open>The default of the parameter \<open>mode\<close>, which no caller in the source overrides.\<close>

definition default_mode :: string where
  "default_mode = ''0''"

subsection \<open>monitor_loop\<close>

text \<open>Lines 298 to 301: the conjunction evaluates the comparison only on a number.\<close>

definition battery_already_charging :: "pyval \<Rightarrow> exn + bool" where
  "battery_already_charging battery_power =
     (if isinstance_int_float battery_power then py_gt_zero battery_power else Inr False)"

text \<open>
  The status line of the last branch (lines 382 to 397): what it compares, so that a
  comparison that raised would show.
\<close>

definition idle_status :: "pyval \<Rightarrow> exn + string" where
  "idle_status battery_power =
     (if isinstance_int_float battery_power
      then and_then (py_gt_zero battery_power) (\<lambda>pos.
             if pos then Inr ''charging''
             else and_then (py_lt_zero battery_power) (\<lambda>neg.
                    if neg then Inr ''discharging'' else Inr ''idle''))
      else Inr ''unknown'')"

text \<open>
  What one iteration meets: the clock when the reconnection is checked, how
  \<open>connect()\<close> ends and the clock it stores, the two clients, and how the sleep of the
  \<open>try\<close> and the sleep of the handler end.
\<close>

record tick_env =
  now :: int
  connect :: "exn option"
  connected_at :: int
  zappi :: zappi_client
  sigen :: sigen_client
  sleep :: "exn option"
  sleep_in_handler :: "exn option"

text \<open>Lines 264 to 271: the periodic reconnection.\<close>

definition maybe_reconnect :: "sitter \<Rightarrow> tick_env \<Rightarrow> sitter \<times> event list \<times> exn option" where
  "maybe_reconnect s env =
     (case last_connection_time s of
        None \<Rightarrow> (s, [], None)
      | Some t \<Rightarrow>
         (if now env - t \<ge> reconnect_interval
          then (case connect env of
                  Some e \<Rightarrow> (s, [Connect], Some e)
                | None \<Rightarrow> (s\<lparr>last_connection_time := Some (connected_at env)\<rparr>, [Connect], None))
          else (s, [], None)))"

text \<open>
  Lines 303 to 397, the decision step: the four branches on \<open>zappi_charging\<close> and
  \<open>self.is_charging\<close>. Every assignment to the two flags stands after the call of
  \<open>set_instant_manual_charge\<close> of its branch, so a call that raises leaves them as they
  were.
\<close>

definition handle_state_changes ::
  "sitter \<Rightarrow> sigen_client \<Rightarrow> bool \<Rightarrow> pyval \<Rightarrow> bool \<Rightarrow> sitter \<times> event list \<times> exn option" where
  "handle_state_changes s sg zappi_charging battery_power already_charging =
     (if zappi_charging \<and> \<not> is_charging s then
        (if already_charging
         then (s\<lparr>is_charging := True, manual_charge_enabled := False\<rparr>, [], None)
         else (case set_instant_manual_charge sg True 30 (charging_power s) default_mode of
                 (evs, Inl e) \<Rightarrow> (s, evs, Some e)
               | (evs, Inr _) \<Rightarrow>
                   (s\<lparr>is_charging := True, manual_charge_enabled := True\<rparr>, evs, None)))
      else if \<not> zappi_charging \<and> is_charging s then
        (if manual_charge_enabled s
         then (case set_instant_manual_charge sg False 0 0 default_mode of
                 (evs, Inl e) \<Rightarrow> (s, evs, Some e)
               | (evs, Inr _) \<Rightarrow>
                   (s\<lparr>manual_charge_enabled := False, is_charging := False\<rparr>, evs, None))
         else (s\<lparr>is_charging := False\<rparr>, [], None))
      else if zappi_charging \<and> is_charging s then
        (if already_charging
         then (s, [], None)
         else (case set_instant_manual_charge sg True 30 (charging_power s) default_mode of
                 (evs, Inl e) \<Rightarrow> (s, evs, Some e)
               | (evs, Inr _) \<Rightarrow> (s\<lparr>manual_charge_enabled := True\<rparr>, evs, None)))
      else
        (case idle_status battery_power of
           Inl e \<Rightarrow> (s, [], Some e)
         | Inr _ \<Rightarrow> (s, [], None)))"

text \<open>Lines 273 to 301: the two probes and the three values derived from the snapshot.\<close>

definition read_probes ::
  "tick_env \<Rightarrow> event list \<times> (exn + bool \<times> pyval \<times> bool)" where
  "read_probes env =
     (case get_zappi_charging_status (zappi env) of
        (evz, Inl e) \<Rightarrow> (evz, Inl e)
      | (evz, Inr zappi_charging) \<Rightarrow>
         (case get_battery_info (sigen env) of
            (evb, Inl e) \<Rightarrow> (evz @ evb, Inl e)
          | (evb, Inr battery_info) \<Rightarrow>
             (let battery_soc = dict_get battery_info ''batterySoc'' (PyStr ''N/A'');
                  battery_power = dict_get battery_info ''batteryPower'' (PyStr ''N/A'')
              in case battery_already_charging battery_power of
                   Inl e \<Rightarrow> (evz @ evb, Inl e)
                 | Inr already_charging \<Rightarrow>
                     (evz @ evb, Inr (zappi_charging, battery_power, already_charging)))))"

text \<open>The body of the \<open>try\<close> of one iteration, lines 263 to 400.\<close>

definition try_body :: "sitter \<Rightarrow> tick_env \<Rightarrow> sitter \<times> event list \<times> exn option" where
  "try_body s env =
     (case maybe_reconnect s env of
        (s1, ev1, Some e) \<Rightarrow> (s1, ev1, Some e)
      | (s1, ev1, None) \<Rightarrow>
         (case read_probes env of
            (ev2, Inl e) \<Rightarrow> (s1, ev1 @ ev2, Some e)
          | (ev2, Inr (zappi_charging, battery_power, already_charging)) \<Rightarrow>
             (case handle_state_changes s1 (sigen env) zappi_charging battery_power
                     already_charging of
                (s2, ev3, Some e) \<Rightarrow> (s2, ev1 @ ev2 @ ev3, Some e)
              | (s2, ev3, None) \<Rightarrow>
                  (s2, ev1 @ ev2 @ ev3 @ [Sleep (poll_interval s2)], sleep env))))"

text \<open>
  One iteration with its two \<open>except\<close> clauses, in the order of the source:
  KeyboardInterrupt breaks the loop, any other \<open>Exception\<close> is logged and followed by
  the handler's sleep, anything else leaves \<open>monitor_loop\<close>.
\<close>

datatype tick_outcome = Continue | Break | Raise exn

definition tick :: "sitter \<Rightarrow> tick_env \<Rightarrow> sitter \<times> event list \<times> tick_outcome" where
  "tick s env =
     (case try_body s env of
        (s', evs, None) \<Rightarrow> (s', evs, Continue)
      | (s', evs, Some e) \<Rightarrow>
         (if e = KeyboardInterrupt then (s', evs, Break)
          else if is_Exception e then
            (case sleep_in_handler env of
               None \<Rightarrow> (s', evs @ [Sleep (poll_interval s')], Continue)
             | Some e' \<Rightarrow> (s', evs @ [Sleep (poll_interval s')], Raise e'))
          else (s', evs, Raise e)))"

text \<open>
  The \<open>while self.running\<close> loop over the environments of its successive iterations.
  The list is the fuel: \<open>StillRunning\<close> says that every environment was consumed and
  the loop is about to start another iteration.
\<close>

datatype loop_result = Returned | Raised exn | StillRunning

fun while_running :: "sitter \<Rightarrow> tick_env list \<Rightarrow> sitter \<times> event list \<times> loop_result" where
  "while_running s [] = (s, [], if running s then StillRunning else Returned)"
| "while_running s (env # envs) =
     (if \<not> running s then (s, [], Returned)
      else (case tick s env of
              (s', evs, Continue) \<Rightarrow>
                (case while_running s' envs of (s'', evs', r) \<Rightarrow> (s'', evs @ evs', r))
            | (s', evs, Break) \<Rightarrow> (s', evs, Returned)
            | (s', evs, Raise e) \<Rightarrow> (s', evs, Raised e)))"

definition monitor_loop :: "sitter \<Rightarrow> tick_env list \<Rightarrow> sitter \<times> event list \<times> loop_result" where
  "monitor_loop s envs = while_running (s\<lparr>running := True\<rparr>) envs"

section \<open>The decision table of the specification\<close>

text \<open>
  The six rows of the table of the reconciliation loop, written from the
  specification's words and not from the code: from \<open>evNow\<close>, \<open>evPrev\<close>,
  \<open>batteryCharging\<close> and the ownership before the tick, the action and the new
  ownership. \<open>action_calls\<close> gives the call an action stands for: an override of 30
  minutes at the configured power, or the disabling call with duration and power 0.
\<close>

datatype action = NoCommand | EnableOverride | DisableOverride

fun decision_table :: "bool \<Rightarrow> bool \<Rightarrow> bool \<Rightarrow> bool \<Rightarrow> action \<times> bool" where
  "decision_table True False True owns = (NoCommand, False)"
| "decision_table True False False owns = (EnableOverride, True)"
| "decision_table False True battery owns = (if owns then DisableOverride else NoCommand, False)"
| "decision_table True True True owns = (NoCommand, owns)"
| "decision_table True True False owns = (EnableOverride, True)"
| "decision_table False False battery owns = (NoCommand, owns)"

fun action_calls :: "int \<Rightarrow> action \<Rightarrow> event list" where
  "action_calls kw NoCommand = []"
| "action_calls kw EnableOverride = [SetInstantManualCharge True 30 kw ''0'']"
| "action_calls kw DisableOverride = [SetInstantManualCharge False 0 0 ''0'']"

section \<open>What an iteration can raise\<close>

text \<open>
  Every exception the collaborators hold ready for the \<open>try\<close> of one iteration: the
  reconnection, the charger's refresh and properties, the telemetry call, the four
  steps of the override command and the sleep that ends the \<open>try\<close>.
\<close>

fun raised :: "exn + 'a \<Rightarrow> exn list" where
  "raised (Inl e) = [e]"
| "raised (Inr _) = []"

fun raised_opt :: "exn option \<Rightarrow> exn list" where
  "raised_opt (Some e) = [e]"
| "raised_opt None = []"

definition raised_in_try :: "tick_env \<Rightarrow> exn list" where
  "raised_in_try env =
     raised_opt (connect env)
     @ raised_opt (refresh (zappi env)) @ raised (status (zappi env))
     @ raised (plug_status (zappi env)) @ raised (charge_mode (zappi env))
     @ raised (get_energy_flow (sigen env))
     @ raised_opt (ensure_valid_token (sigen env)) @ raised_opt (session (sigen env))
     @ raised_opt (put (sigen env)) @ raised (response_json (sigen env))
     @ raised_opt (sleep env)"

section \<open>Scenarios\<close>

text \<open>
  Concrete collaborators: a charger that answers with the given operating state and
  plug state, a battery cloud that answers with the given energy flow and whose PUT
  ends as given, and an iteration in which nothing else fails.
\<close>

definition zappi_reading :: "string \<Rightarrow> string \<Rightarrow> zappi_client" where
  "zappi_reading st plug =
     \<lparr>refresh = None, status = Inr st, plug_status = Inr plug, charge_mode = Inr ''Eco+''\<rparr>"

definition cloud :: "(string \<times> pyval) list \<Rightarrow> exn option \<Rightarrow> sigen_client" where
  "cloud flow put_outcome =
     \<lparr>get_energy_flow = Inr (Some flow), ensure_valid_token = None,
      BASE_URL = ''https://api-eu.sigencloud.com/'', station_id = PyInt 7,
      headers = [(''Authorization'', ''Bearer t'')], session = None,
      put = put_outcome, response_json = Inr (PyStr ''ok'')\<rparr>"

definition quiet_env :: "zappi_client \<Rightarrow> sigen_client \<Rightarrow> tick_env" where
  "quiet_env z sg =
     \<lparr>now = 0, connect = None, connected_at = 0, zappi = z, sigen = sg,
      sleep = None, sleep_in_handler = None\<rparr>"

definition flow :: "pyval \<Rightarrow> (string \<times> pyval) list" where
  "flow p = [(''batterySoc'', PyInt 55), (''batteryPower'', p)]"

definition ev_on :: zappi_client where
  "ev_on = zappi_reading ''Charging'' ''Charging''"

definition ev_off :: zappi_client where
  "ev_off = zappi_reading ''Paused'' ''EV Connected''"

section \<open>Auxiliary facts\<close>

lemmas eval_defs =
  tick_def try_body_def maybe_reconnect_def read_probes_def handle_state_changes_def
  get_zappi_charging_status_def zappi_try_def get_battery_info_def
  set_instant_manual_charge_def manual_charge_try_def manual_charge_request_def
  battery_already_charging_def idle_status_def dict_get_def except_Exception_def
  charging_statuses_def default_mode_def init_def quiet_env_def cloud_def flow_def
  ev_on_def ev_off_def zappi_reading_def monitor_loop_def and_then_def raising_def
  override_calls_def

lemma sum_simps [simp]:
  "and_then (Inl e) f = Inl e"
  "and_then (Inr v) f = f v"
  "raising None = Inr ()"
  "raising (Some e) = Inl e"
  by (simp_all add: and_then_def raising_def)

lemma override_calls_simps [simp]:
  "override_calls [] = []"
  "override_calls (ev # evs) =
     (if is_override_call ev then ev # override_calls evs else override_calls evs)"
  "override_calls (xs @ ys) = override_calls xs @ override_calls ys"
  by (simp_all add: override_calls_def)

lemma no_event_no_call:
  "filter is_override_event evs = [] \<Longrightarrow> override_calls evs = []"
proof (induction evs)
  case Nil
  then show ?case by simp
next
  case (Cons ev evs)
  then show ?case by (cases ev) (simp_all split: if_splits)
qed

lemma manual_charge_try_events:
  "override_calls (fst (manual_charge_try sg en d p m)) = []"
  by (simp add: manual_charge_try_def Let_def split: option.splits)

lemma set_instant_manual_charge_calls:
  "override_calls (fst (set_instant_manual_charge sg en d p m)) =
     [SetInstantManualCharge en d p m]"
  using manual_charge_try_events[of sg en d p m]
  by (simp add: set_instant_manual_charge_def case_prod_beta)

lemma idle_status_returns: "\<exists>t. idle_status p = Inr t"
  by (cases p) (simp_all add: idle_status_def)

lemma battery_already_charging_returns: "\<exists>c. battery_already_charging p = Inr c"
  by (cases p) (auto simp: battery_already_charging_def)

lemma maybe_reconnect_flags:
  assumes "maybe_reconnect s env = (s1, ev1, r1)"
  shows "is_charging s1 = is_charging s"
    and "manual_charge_enabled s1 = manual_charge_enabled s"
    and "charging_power s1 = charging_power s"
    and "poll_interval s1 = poll_interval s"
    and "running s1 = running s"
    and "filter is_override_event ev1 = []"
  using assms
  by (auto simp: maybe_reconnect_def split: option.splits if_splits)

lemma read_probes_events:
  "filter is_override_event (fst (read_probes env)) = []"
  by (auto simp: read_probes_def get_zappi_charging_status_def get_battery_info_def Let_def
      split: prod.splits sum.splits)

lemma handle_state_changes_fixed:
  assumes "handle_state_changes s sg zc bp bac = (s', evs, r)"
  shows "charging_power s' = charging_power s"
    and "poll_interval s' = poll_interval s"
    and "running s' = running s"
    and "last_connection_time s' = last_connection_time s"
  using assms
  by (auto simp: handle_state_changes_def split: if_splits prod.splits sum.splits)

lemma try_body_decision:
  assumes "maybe_reconnect s env = (s1, ev1, None)"
    and "read_probes env = (ev2, Inr (zc, bp, bac))"
    and "handle_state_changes s1 (sigen env) zc bp bac = (s2, ev3, r)"
  shows "try_body s env =
           (s2, ev1 @ ev2 @ ev3 @ (if r = None then [Sleep (poll_interval s2)] else []),
            if r = None then sleep env else r)"
  using assms by (cases r) (simp_all add: try_body_def)

lemma tick_state: "fst (tick s env) = fst (try_body s env)"
  by (simp add: tick_def split: prod.splits option.splits)

lemma tick_override_events:
  "filter is_override_event (fst (snd (tick s env))) =
   filter is_override_event (fst (snd (try_body s env)))"
  by (simp add: tick_def split: prod.splits option.splits)

lemma tick_decision:
  assumes "maybe_reconnect s env = (s1, ev1, None)"
    and "read_probes env = (ev2, Inr (zc, bp, bac))"
    and "handle_state_changes s1 (sigen env) zc bp bac = (s2, ev3, r)"
  shows "fst (tick s env) = s2"
    and "filter is_override_event (fst (snd (tick s env))) = filter is_override_event ev3"
    and "override_calls (fst (snd (tick s env))) = override_calls ev3"
proof -
  have ev: "filter is_override_event ev1 = []" "filter is_override_event ev2 = []"
    using assms(1) maybe_reconnect_flags(6) apply blast
    using assms(2) read_probes_events[of env] by simp
  note tb = try_body_decision[OF assms]
  show "fst (tick s env) = s2"
    using tb by (simp add: tick_state)
  show "filter is_override_event (fst (snd (tick s env))) = filter is_override_event ev3"
    using tb ev by (simp add: tick_override_events)
  show "override_calls (fst (snd (tick s env))) = override_calls ev3"
    using tb ev[THEN no_event_no_call]
    by (simp add: tick_def split: option.splits)
qed

lemma handle_state_changes_invariant:
  assumes "handle_state_changes s sg zc bp bac = (s', evs, r)"
    and "manual_charge_enabled s \<longrightarrow> is_charging s"
  shows "manual_charge_enabled s' \<longrightarrow> is_charging s'"
  using assms
  by (auto simp: handle_state_changes_def split: if_splits prod.splits sum.splits)

lemma try_body_invariant:
  assumes "manual_charge_enabled s \<longrightarrow> is_charging s"
  shows "manual_charge_enabled (fst (try_body s env)) \<longrightarrow> is_charging (fst (try_body s env))"
proof -
  obtain s1 ev1 r1 where mr: "maybe_reconnect s env = (s1, ev1, r1)"
    by (metis prod_cases3)
  have inv1: "manual_charge_enabled s1 \<longrightarrow> is_charging s1"
    using assms maybe_reconnect_flags(1,2)[OF mr] by simp
  show ?thesis
  proof (cases r1)
    case (Some e)
    then show ?thesis using mr inv1 by (simp add: try_body_def)
  next
    case None
    obtain ev2 pr where rp: "read_probes env = (ev2, pr)"
      by (metis surj_pair)
    show ?thesis
    proof (cases pr)
      case (Inl e)
      then show ?thesis using mr None rp inv1 by (simp add: try_body_def)
    next
      case (Inr t)
      obtain zc bp bac where t: "t = (zc, bp, bac)"
        by (metis prod_cases3)
      obtain s2 ev3 r where h: "handle_state_changes s1 (sigen env) zc bp bac = (s2, ev3, r)"
        by (metis prod_cases3)
      have "fst (try_body s env) = s2"
        using try_body_decision[OF mr[unfolded None] rp[unfolded Inr t] h] by simp
      then show ?thesis
        using handle_state_changes_invariant[OF h inv1] by simp
    qed
  qed
qed

lemma tick_invariant:
  assumes "manual_charge_enabled s \<longrightarrow> is_charging s"
  shows "manual_charge_enabled (fst (tick s env)) \<longrightarrow> is_charging (fst (tick s env))"
  using try_body_invariant[OF assms] by (simp add: tick_state)

lemma while_running_invariant:
  "manual_charge_enabled s \<longrightarrow> is_charging s \<Longrightarrow>
   manual_charge_enabled (fst (while_running s envs))
     \<longrightarrow> is_charging (fst (while_running s envs))"
proof (induction envs arbitrary: s)
  case Nil
  then show ?case by simp
next
  case (Cons env envs)
  obtain s' evs out where t: "tick s env = (s', evs, out)"
    by (metis prod_cases3)
  have inv': "manual_charge_enabled s' \<longrightarrow> is_charging s'"
    using tick_invariant[OF Cons.prems, of env] t by simp
  show ?case
  proof (cases out)
    case Continue
    then show ?thesis
      using t Cons.IH[OF inv'] Cons.prems by (simp add: case_prod_beta)
  next
    case Break
    then show ?thesis using t inv' Cons.prems by simp
  next
    case (Raise e)
    then show ?thesis using t inv' Cons.prems by simp
  qed
qed

text \<open>The probes of two scenarios, computed.\<close>

lemma probes_ev_start_battery_charging:
  "read_probes (quiet_env ev_on (cloud (flow (PyInt 500)) None)) =
     ([ZappiRefresh, GetEnergyFlow], Inr (True, PyInt 500, True))"
  by (simp add: eval_defs)

lemma probes_ev_stop:
  "read_probes (quiet_env ev_off (cloud (flow (PyInt 1000)) None)) =
     ([ZappiRefresh, GetEnergyFlow], Inr (False, PyInt 1000, True))"
  by (simp add: eval_defs)

lemma no_reconnect_before_connect:
  "last_connection_time s = None \<Longrightarrow> maybe_reconnect s env = (s, [], None)"
  by (simp add: maybe_reconnect_def)

lemma set_instant_manual_charge_outcome:
  "snd (set_instant_manual_charge sg en d p m) = snd (set_instant_manual_charge sg en' d' p' m')"
  by (simp add: set_instant_manual_charge_def manual_charge_try_def Let_def
      split: option.splits)

lemma handle_state_changes_calls:
  assumes "handle_state_changes s sg zc bp bac = (s', evs, r)"
  shows "override_calls evs =
           action_calls (charging_power s)
             (fst (decision_table zc (is_charging s) bac (manual_charge_enabled s)))"
proof -
  have calls: "\<And>en d p evs' x. set_instant_manual_charge sg en d p default_mode = (evs', x)
      \<Longrightarrow> override_calls evs' = [SetInstantManualCharge en d p ''0'']"
    using set_instant_manual_charge_calls[of sg _ _ _ default_mode]
    by (metis default_mode_def fst_conv)
  show ?thesis
    using assms
    by (cases zc; cases "is_charging s"; cases bac; cases "manual_charge_enabled s")
       (auto simp: handle_state_changes_def split: prod.splits sum.splits dest: calls)
qed

lemma handle_state_changes_issued:
  assumes "handle_state_changes s sg zc bp bac = (s', evs, r)"
    and "override_calls evs \<noteq> []"
  shows "\<exists>en d p. evs = fst (set_instant_manual_charge sg en d p default_mode)
           \<and> r = (case snd (set_instant_manual_charge sg en d p default_mode) of
                    Inl e \<Rightarrow> Some e | Inr _ \<Rightarrow> None)
           \<and> (r \<noteq> None \<longrightarrow> s' = s)"
proof -
  obtain t where t: "idle_status bp = Inr t"
    using idle_status_returns by blast
  consider (start) "zc" "\<not> is_charging s" "\<not> bac"
    | (stop) "\<not> zc" "is_charging s" "manual_charge_enabled s"
    | (continues) "zc" "is_charging s" "\<not> bac"
    using assms t
    by (cases zc; cases "is_charging s"; cases bac; cases "manual_charge_enabled s")
       (auto simp: handle_state_changes_def)
  then show ?thesis
  proof cases
    case start
    then have "(s', evs, r) =
        (case set_instant_manual_charge sg True 30 (charging_power s) default_mode of
           (evs, Inl e) \<Rightarrow> (s, evs, Some e)
         | (evs, Inr _) \<Rightarrow>
             (s\<lparr>is_charging := True, manual_charge_enabled := True\<rparr>, evs, None))"
      using assms(1) by (simp add: handle_state_changes_def)
    then show ?thesis
      by (intro exI[of _ True] exI[of _ 30] exI[of _ "charging_power s"])
         (auto split: prod.splits sum.splits)
  next
    case stop
    then have "(s', evs, r) =
        (case set_instant_manual_charge sg False 0 0 default_mode of
           (evs, Inl e) \<Rightarrow> (s, evs, Some e)
         | (evs, Inr _) \<Rightarrow>
             (s\<lparr>manual_charge_enabled := False, is_charging := False\<rparr>, evs, None))"
      using assms(1) by (simp add: handle_state_changes_def)
    then show ?thesis
      by (intro exI[of _ False] exI[of _ 0])
         (auto split: prod.splits sum.splits)
  next
    case continues
    then have "(s', evs, r) =
        (case set_instant_manual_charge sg True 30 (charging_power s) default_mode of
           (evs, Inl e) \<Rightarrow> (s, evs, Some e)
         | (evs, Inr _) \<Rightarrow> (s\<lparr>manual_charge_enabled := True\<rparr>, evs, None))"
      using assms(1) by (simp add: handle_state_changes_def)
    then show ?thesis
      by (intro exI[of _ True] exI[of _ 30] exI[of _ "charging_power s"])
         (auto split: prod.splits sum.splits)
  qed
qed

lemma maybe_reconnect_raises:
  "maybe_reconnect s env = (s1, ev1, Some e) \<Longrightarrow> e \<in> set (raised_opt (connect env))"
  by (auto simp: maybe_reconnect_def split: option.splits if_splits)

lemma zappi_raises:
  "snd (get_zappi_charging_status z) = Inl e \<Longrightarrow>
   e \<in> set (raised_opt (refresh z) @ raised (status z) @ raised (plug_status z)
            @ raised (charge_mode z))"
  by (cases "refresh z"; cases "status z"; cases "plug_status z"; cases "charge_mode z")
     (auto simp: get_zappi_charging_status_def zappi_try_def except_Exception_def
        split: if_splits)

lemma battery_info_raises:
  "snd (get_battery_info sg) = Inl e \<Longrightarrow> e \<in> set (raised (get_energy_flow sg))"
  by (cases "get_energy_flow sg")
     (auto simp: get_battery_info_def except_Exception_def split: if_splits option.splits)

lemma read_probes_raises:
  assumes "read_probes env = (ev2, Inl e)"
  shows "e \<in> set (raised_opt (refresh (zappi env)) @ raised (status (zappi env))
            @ raised (plug_status (zappi env)) @ raised (charge_mode (zappi env))
            @ raised (get_energy_flow (sigen env)))"
proof -
  obtain evz zr where z: "get_zappi_charging_status (zappi env) = (evz, zr)"
    by (metis surj_pair)
  obtain evb br where b: "get_battery_info (sigen env) = (evb, br)"
    by (metis surj_pair)
  show ?thesis
  proof (cases zr)
    case (Inl e')
    then have "e' = e"
      using assms z by (simp add: read_probes_def)
    then show ?thesis
      using zappi_raises[of "zappi env" e] z Inl by auto
  next
    case zc: (Inr c)
    show ?thesis
    proof (cases br)
      case (Inl e')
      then have "e' = e"
        using assms z zc b by (simp add: read_probes_def)
      then show ?thesis
        using battery_info_raises[of "sigen env" e] b Inl by auto
    next
      case (Inr info)
      obtain a where "battery_already_charging (dict_get info ''batteryPower'' (PyStr ''N/A''))
          = Inr a"
        using battery_already_charging_returns by blast
      then show ?thesis
        using assms z zc b Inr by (simp add: read_probes_def)
    qed
  qed
qed

lemma set_instant_manual_charge_raises:
  "snd (set_instant_manual_charge sg en d p m) = Inl e \<Longrightarrow>
   e \<in> set (raised_opt (ensure_valid_token sg) @ raised_opt (session sg)
            @ raised_opt (put sg) @ raised (response_json sg))"
  by (cases "ensure_valid_token sg"; cases "session sg"; cases "put sg";
      cases "response_json sg")
     (auto simp: set_instant_manual_charge_def manual_charge_try_def Let_def
        except_Exception_def split: if_splits)

lemma handle_state_changes_raises:
  assumes "handle_state_changes s sg zc bp bac = (s', evs, Some e)"
  shows "e \<in> set (raised_opt (ensure_valid_token sg) @ raised_opt (session sg)
            @ raised_opt (put sg) @ raised (response_json sg))"
proof -
  obtain t where t: "idle_status bp = Inr t"
    using idle_status_returns by blast
  have "\<exists>en d p evs'. set_instant_manual_charge sg en d p default_mode = (evs', Inl e)"
    using assms t
    by (cases zc; cases "is_charging s"; cases bac; cases "manual_charge_enabled s")
       (auto simp: handle_state_changes_def split: prod.splits sum.splits)
  then obtain en d p evs' where
    "set_instant_manual_charge sg en d p default_mode = (evs', Inl e)"
    by blast
  then have "snd (set_instant_manual_charge sg en d p default_mode) = Inl e"
    by simp
  then show ?thesis
    by (rule set_instant_manual_charge_raises)
qed

lemma try_body_raises:
  assumes "snd (snd (try_body s env)) = Some e"
  shows "e \<in> set (raised_in_try env)"
proof -
  obtain s1 ev1 r1 where mr: "maybe_reconnect s env = (s1, ev1, r1)"
    by (metis prod_cases3)
  show ?thesis
  proof (cases r1)
    case (Some e')
    then have "e' = e"
      using assms mr by (simp add: try_body_def)
    then show ?thesis
      using maybe_reconnect_raises[of s env s1 ev1 e] mr Some
      by (auto simp: raised_in_try_def)
  next
    case None
    obtain ev2 pr where rp: "read_probes env = (ev2, pr)"
      by (metis surj_pair)
    show ?thesis
    proof (cases pr)
      case (Inl e')
      then have "e' = e"
        using assms mr None rp by (simp add: try_body_def)
      then show ?thesis
        using read_probes_raises[of env ev2 e] rp Inl
        by (auto simp: raised_in_try_def)
    next
      case (Inr t)
      obtain zc bp bac where t: "t = (zc, bp, bac)"
        by (metis prod_cases3)
      obtain s2 ev3 r where h: "handle_state_changes s1 (sigen env) zc bp bac = (s2, ev3, r)"
        by (metis prod_cases3)
      note tb = try_body_decision[OF mr[unfolded None] rp[unfolded Inr t] h]
      show ?thesis
      proof (cases r)
        case None
        then have "sleep env = Some e"
          using assms tb by simp
        then show ?thesis
          by (simp add: raised_in_try_def)
      next
        case (Some e')
        then have "e' = e"
          using assms tb by simp
        then show ?thesis
          using handle_state_changes_raises[of s1 "sigen env" zc bp bac s2 ev3 e] h Some
          by (auto simp: raised_in_try_def)
      qed
    qed
  qed
qed

lemma try_body_fixed:
  "poll_interval (fst (try_body s env)) = poll_interval s
   \<and> running (fst (try_body s env)) = running s"
proof -
  obtain s1 ev1 r1 where mr: "maybe_reconnect s env = (s1, ev1, r1)"
    by (metis prod_cases3)
  note f1 = maybe_reconnect_flags(4,5)[OF mr]
  show ?thesis
  proof (cases r1)
    case (Some e)
    then show ?thesis using mr f1 by (simp add: try_body_def)
  next
    case None
    obtain ev2 pr where rp: "read_probes env = (ev2, pr)"
      by (metis surj_pair)
    show ?thesis
    proof (cases pr)
      case (Inl e)
      then show ?thesis using mr None rp f1 by (simp add: try_body_def)
    next
      case (Inr t)
      obtain zc bp bac where t: "t = (zc, bp, bac)"
        by (metis prod_cases3)
      obtain s2 ev3 r where h: "handle_state_changes s1 (sigen env) zc bp bac = (s2, ev3, r)"
        by (metis prod_cases3)
      have "fst (try_body s env) = s2"
        using try_body_decision[OF mr[unfolded None] rp[unfolded Inr t] h] by simp
      then show ?thesis
        using handle_state_changes_fixed(2,3)[OF h] f1 by simp
    qed
  qed
qed

lemma try_body_ends_with_sleep:
  assumes "snd (snd (try_body s env)) = None"
  shows "\<exists>evs. fst (snd (try_body s env)) = evs @ [Sleep (poll_interval s)]"
proof -
  obtain s1 ev1 r1 where mr: "maybe_reconnect s env = (s1, ev1, r1)"
    by (metis prod_cases3)
  have r1: "r1 = None"
    using assms mr by (cases r1) (simp_all add: try_body_def)
  obtain ev2 pr where rp: "read_probes env = (ev2, pr)"
    by (metis surj_pair)
  obtain t where pr: "pr = Inr t"
    using assms mr r1 rp by (cases pr) (simp_all add: try_body_def)
  obtain zc bp bac where t: "t = (zc, bp, bac)"
    by (metis prod_cases3)
  obtain s2 ev3 r where h: "handle_state_changes s1 (sigen env) zc bp bac = (s2, ev3, r)"
    by (metis prod_cases3)
  note tb = try_body_decision[OF mr[unfolded r1] rp[unfolded pr t] h]
  have r: "r = None"
    using assms tb by (cases r) simp_all
  have "poll_interval s2 = poll_interval s"
    using handle_state_changes_fixed(2)[OF h] maybe_reconnect_flags(4)[OF mr] by simp
  then have "fst (snd (try_body s env)) = (ev1 @ ev2 @ ev3) @ [Sleep (poll_interval s)]"
    using tb r by simp
  then show ?thesis by blast
qed

lemma tick_fixed:
  "poll_interval (fst (tick s env)) = poll_interval s
   \<and> running (fst (tick s env)) = running s"
  using try_body_fixed[of s env] by (simp add: tick_state)

lemma tick_survives:
  assumes "list_all is_Exception (raised_in_try env)"
    and "sleep_in_handler env = None"
  shows "snd (snd (tick s env)) = Continue"
    and "\<exists>evs. fst (snd (tick s env)) = evs @ [Sleep (poll_interval s)]"
proof -
  obtain s' evs r where tb: "try_body s env = (s', evs, r)"
    by (metis prod_cases3)
  have p: "poll_interval s' = poll_interval s"
    using try_body_fixed[of s env] tb by simp
  show "snd (snd (tick s env)) = Continue"
  proof (cases r)
    case None
    then show ?thesis using tb by (simp add: tick_def)
  next
    case (Some e)
    then have "e \<in> set (raised_in_try env)"
      using try_body_raises[of s env e] tb by simp
    then have "is_Exception e"
      using assms(1) by (simp add: list_all_iff)
    then have "e \<noteq> KeyboardInterrupt"
      by auto
    then show ?thesis
      using tb Some \<open>is_Exception e\<close> assms(2) by (simp add: tick_def)
  qed
  show "\<exists>evs. fst (snd (tick s env)) = evs @ [Sleep (poll_interval s)]"
  proof (cases r)
    case None
    then show ?thesis
      using try_body_ends_with_sleep[of s env] tb by (simp add: tick_def)
  next
    case (Some e)
    then have "e \<in> set (raised_in_try env)"
      using try_body_raises[of s env e] tb by simp
    then have "is_Exception e"
      using assms(1) by (simp add: list_all_iff)
    then have "e \<noteq> KeyboardInterrupt"
      by auto
    then show ?thesis
      using tb Some \<open>is_Exception e\<close> assms(2) p by (simp add: tick_def)
  qed
qed

lemma tick_stops:
  "(snd (snd (tick s env)) = Break \<longrightarrow> KeyboardInterrupt \<in> set (raised_in_try env))
   \<and> (snd (snd (tick s env)) = Raise e \<longrightarrow>
        (e \<in> set (raised_in_try env) \<and> \<not> is_Exception e) \<or> sleep_in_handler env = Some e)"
proof -
  obtain s' evs r where tb: "try_body s env = (s', evs, r)"
    by (metis prod_cases3)
  show ?thesis
  proof (cases r)
    case None
    then show ?thesis using tb by (simp add: tick_def)
  next
    case (Some e')
    then have "e' \<in> set (raised_in_try env)"
      using try_body_raises[of s env e'] tb by simp
    then show ?thesis
      using tb Some by (auto simp: tick_def split: option.splits if_splits)
  qed
qed

lemma while_running_survives:
  assumes "running s"
    and "list_all (\<lambda>env. list_all is_Exception (raised_in_try env)
                         \<and> sleep_in_handler env = None) envs"
  shows "snd (snd (while_running s envs)) = StillRunning
         \<and> length envs \<le> length (filter is_sleep (fst (snd (while_running s envs))))"
  using assms
proof (induction envs arbitrary: s)
  case Nil
  then show ?case by simp
next
  case (Cons env envs)
  obtain s' evs out where t: "tick s env = (s', evs, out)"
    by (metis prod_cases3)
  have q: "list_all is_Exception (raised_in_try env)" "sleep_in_handler env = None"
    using Cons.prems(2) by simp_all
  have out: "out = Continue"
    using tick_survives(1)[OF q, of s] t by simp
  obtain evs0 where evs: "evs = evs0 @ [Sleep (poll_interval s)]"
    using tick_survives(2)[OF q, of s] t by auto
  have run: "running s'"
    using tick_fixed[of s env] t Cons.prems(1) by simp
  have rest: "list_all (\<lambda>env. list_all is_Exception (raised_in_try env)
                         \<and> sleep_in_handler env = None) envs"
    using Cons.prems(2) by simp
  note ih = Cons.IH[OF run rest]
  show ?case
    using t out evs ih Cons.prems(1) by (simp add: case_prod_beta)
qed

lemma while_running_stops:
  assumes "running s"
  shows "(snd (snd (while_running s envs)) = Returned \<longrightarrow>
            (\<exists>env \<in> set envs. KeyboardInterrupt \<in> set (raised_in_try env)))
         \<and> (snd (snd (while_running s envs)) = Raised e \<longrightarrow>
              (\<exists>env \<in> set envs. (e \<in> set (raised_in_try env) \<and> \<not> is_Exception e)
                 \<or> sleep_in_handler env = Some e))"
  using assms
proof (induction envs arbitrary: s)
  case Nil
  then show ?case by simp
next
  case (Cons env envs)
  obtain s' evs out where t: "tick s env = (s', evs, out)"
    by (metis prod_cases3)
  have run: "running s'"
    using tick_fixed[of s env] t Cons.prems by simp
  note ih = Cons.IH[OF run]
  show ?case
  proof (cases out)
    case Continue
    then show ?thesis
      using t ih Cons.prems by (simp add: case_prod_beta)
  next
    case Break
    then show ?thesis
      using t tick_stops[of s env e] Cons.prems by simp
  next
    case (Raise e')
    then show ?thesis
      using t tick_stops[of s env e'] Cons.prems by auto
  qed
qed

section \<open>The reconciliation loop\<close>

text \<open>
  C1. The ownership flag implies the EV-charging flag in every state the loop reaches:
  after any run of \<open>monitor_loop\<close> from the state \<open>__init__\<close> builds (with or without
  a connection time), \<open>manual_charge_enabled\<close> holds only if \<open>is_charging\<close> holds, and
  each single iteration keeps it so. A decision step that detects the end of EV charging
  and completes leaves the flag false, and so does the one that finds the battery
  already charging when EV charging starts.
\<close>

theorem ownership_implies_ev_charging:
  "(manual_charge_enabled
      (fst (monitor_loop ((init kw seconds)\<lparr>last_connection_time := t0\<rparr>) envs))
      \<longrightarrow> is_charging
            (fst (monitor_loop ((init kw seconds)\<lparr>last_connection_time := t0\<rparr>) envs)))
   \<and> ((manual_charge_enabled s \<longrightarrow> is_charging s) \<longrightarrow>
        (manual_charge_enabled (fst (tick s env)) \<longrightarrow> is_charging (fst (tick s env))))
   \<and> (handle_state_changes s sg False bp bac = (s', evs, None) \<and> is_charging s \<longrightarrow>
        \<not> manual_charge_enabled s')
   \<and> (handle_state_changes s sg True bp True = (s', evs, r) \<and> \<not> is_charging s \<longrightarrow>
        \<not> manual_charge_enabled s')"
proof (intro conjI)
  show "manual_charge_enabled
      (fst (monitor_loop ((init kw seconds)\<lparr>last_connection_time := t0\<rparr>) envs))
      \<longrightarrow> is_charging
            (fst (monitor_loop ((init kw seconds)\<lparr>last_connection_time := t0\<rparr>) envs))"
    unfolding monitor_loop_def
    by (rule while_running_invariant) (simp add: init_def)
  show "(manual_charge_enabled s \<longrightarrow> is_charging s) \<longrightarrow>
        (manual_charge_enabled (fst (tick s env)) \<longrightarrow> is_charging (fst (tick s env)))"
    using tick_invariant by blast
  show "handle_state_changes s sg False bp bac = (s', evs, None) \<and> is_charging s \<longrightarrow>
        \<not> manual_charge_enabled s'"
    by (auto simp: handle_state_changes_def split: if_splits prod.splits sum.splits)
  show "handle_state_changes s sg True bp True = (s', evs, r) \<and> \<not> is_charging s \<longrightarrow>
        \<not> manual_charge_enabled s'"
    by (auto simp: handle_state_changes_def)
qed

theorem ownership_implies_ev_charging_witness:
  "manual_charge_enabled
     (fst (monitor_loop ((init 1 30)\<lparr>last_connection_time := None\<rparr>)
        [quiet_env ev_on (cloud (flow (PyInt 0)) None)]))
   \<and> is_charging
     (fst (monitor_loop ((init 1 30)\<lparr>last_connection_time := None\<rparr>)
        [quiet_env ev_on (cloud (flow (PyInt 0)) None)]))
   \<and> handle_state_changes ((init 1 30)\<lparr>is_charging := True, manual_charge_enabled := True\<rparr>)
        (cloud (flow (PyInt 1000)) None) False (PyInt 1000) True =
       ((init 1 30)\<lparr>is_charging := False, manual_charge_enabled := False\<rparr>,
        [SetInstantManualCharge False 0 0 ''0'',
         HttpRequest (manual_charge_request (cloud (flow (PyInt 1000)) None) False 0 0 ''0'')],
        None)
   \<and> handle_state_changes (init 1 30) (cloud (flow (PyInt 500)) None) True (PyInt 500) True =
       ((init 1 30)\<lparr>is_charging := True, manual_charge_enabled := False\<rparr>, [], None)"
proof -
  have own: "manual_charge_enabled
     (fst (monitor_loop ((init 1 30)\<lparr>last_connection_time := None\<rparr>)
        [quiet_env ev_on (cloud (flow (PyInt 0)) None)]))"
    by (simp add: eval_defs)
  have stop: "handle_state_changes
        ((init 1 30)\<lparr>is_charging := True, manual_charge_enabled := True\<rparr>)
        (cloud (flow (PyInt 1000)) None) False (PyInt 1000) True =
       ((init 1 30)\<lparr>is_charging := False, manual_charge_enabled := False\<rparr>,
        [SetInstantManualCharge False 0 0 ''0'',
         HttpRequest (manual_charge_request (cloud (flow (PyInt 1000)) None) False 0 0 ''0'')],
        None)"
    by (simp add: eval_defs)
  have start: "handle_state_changes (init 1 30) (cloud (flow (PyInt 500)) None) True
        (PyInt 500) True =
       ((init 1 30)\<lparr>is_charging := True, manual_charge_enabled := False\<rparr>, [], None)"
    by (simp add: eval_defs)
  show ?thesis
    using ownership_implies_ev_charging
            [where kw = 1 and seconds = 30 and ?t0.0 = None
               and envs = "[quiet_env ev_on (cloud (flow (PyInt 0)) None)]"]
          own stop start
    by blast
qed

text \<open>
  C2. The decision step refines the six-row table. For every input triple and every
  prior ownership, the override calls it issues are exactly those of the table's
  action (none, one enabling call of 30 minutes at the configured power, or one
  disabling call), whatever the command's fate; and when the step completes, the new
  ownership is the table's and \<open>is_charging\<close> has become the charger's reading.
\<close>

theorem decision_table_refinement:
  assumes "handle_state_changes s sg zc bp bac = (s', evs, r)"
  shows "override_calls evs =
           action_calls (charging_power s)
             (fst (decision_table zc (is_charging s) bac (manual_charge_enabled s)))
         \<and> (r = None \<longrightarrow>
              manual_charge_enabled s' =
                snd (decision_table zc (is_charging s) bac (manual_charge_enabled s))
              \<and> is_charging s' = zc)"
proof -
  obtain t where t: "idle_status bp = Inr t"
    using idle_status_returns by blast
  have issued: "override_calls evs =
           action_calls (charging_power s)
             (fst (decision_table zc (is_charging s) bac (manual_charge_enabled s)))"
    using assms by (rule handle_state_changes_calls)
  have updated: "manual_charge_enabled s' =
                snd (decision_table zc (is_charging s) bac (manual_charge_enabled s))
              \<and> is_charging s' = zc" if "r = None"
    using assms t that
    by (cases zc; cases "is_charging s"; cases bac; cases "manual_charge_enabled s")
       (auto simp: handle_state_changes_def split: prod.splits sum.splits)
  show ?thesis
    using issued updated by blast
qed

theorem decision_table_refinement_witness:
  "handle_state_changes ((init 2 30)\<lparr>is_charging := True, manual_charge_enabled := True\<rparr>)
     (cloud (flow (PyInt 0)) None) True (PyInt 0) False =
     ((init 2 30)\<lparr>is_charging := True, manual_charge_enabled := True\<rparr>,
      [SetInstantManualCharge True 30 2 ''0'',
       HttpRequest (manual_charge_request (cloud (flow (PyInt 0)) None) True 30 2 ''0'')],
      None)
   \<and> decision_table True True False True = (EnableOverride, True)
   \<and> override_calls
       [SetInstantManualCharge True 30 2 ''0'',
        HttpRequest (manual_charge_request (cloud (flow (PyInt 0)) None) True 30 2 ''0'')] =
       action_calls 2 EnableOverride"
proof -
  have h: "handle_state_changes
     ((init 2 30)\<lparr>is_charging := True, manual_charge_enabled := True\<rparr>)
     (cloud (flow (PyInt 0)) None) True (PyInt 0) False =
     ((init 2 30)\<lparr>is_charging := True, manual_charge_enabled := True\<rparr>,
      [SetInstantManualCharge True 30 2 ''0'',
       HttpRequest (manual_charge_request (cloud (flow (PyInt 0)) None) True 30 2 ''0'')],
      None)"
    by (simp add: eval_defs)
  show ?thesis
    using decision_table_refinement[OF h] h by (simp add: init_def)
qed

text \<open>
  C3. EV charging starts while the battery is already charging: in an iteration that
  reaches its decision step with the charger read as charging, \<open>is_charging\<close> still
  false and the battery power numeric and positive, no override call and no request is
  issued, \<open>is_charging\<close> becomes true and \<open>manual_charge_enabled\<close> is false afterwards.
\<close>

theorem ev_start_battery_already_charging:
  assumes "maybe_reconnect s env = (s1, ev1, None)"
    and "read_probes env = (ev2, Inr (True, bp, True))"
    and "\<not> is_charging s"
  shows "filter is_override_event (fst (snd (tick s env))) = []
         \<and> is_charging (fst (tick s env))
         \<and> \<not> manual_charge_enabled (fst (tick s env))"
proof -
  have ns: "\<not> is_charging s1"
    using assms(1,3) maybe_reconnect_flags(1) by blast
  have h: "handle_state_changes s1 (sigen env) True bp True =
        (s1\<lparr>is_charging := True, manual_charge_enabled := False\<rparr>, [], None)"
    using ns by (simp add: handle_state_changes_def)
  show ?thesis
    using tick_decision(1,2)[OF assms(1,2) h] by simp
qed

theorem ev_start_battery_already_charging_witness:
  "maybe_reconnect (init 1 30) (quiet_env ev_on (cloud (flow (PyInt 500)) None)) =
     (init 1 30, [], None)
   \<and> read_probes (quiet_env ev_on (cloud (flow (PyInt 500)) None)) =
       ([ZappiRefresh, GetEnergyFlow], Inr (True, PyInt 500, True))
   \<and> \<not> is_charging (init 1 30)
   \<and> filter is_override_event
       (fst (snd (tick (init 1 30) (quiet_env ev_on (cloud (flow (PyInt 500)) None))))) = []
   \<and> is_charging (fst (tick (init 1 30) (quiet_env ev_on (cloud (flow (PyInt 500)) None))))
   \<and> \<not> manual_charge_enabled
         (fst (tick (init 1 30) (quiet_env ev_on (cloud (flow (PyInt 500)) None))))"
proof -
  have r: "maybe_reconnect (init 1 30) (quiet_env ev_on (cloud (flow (PyInt 500)) None)) =
     (init 1 30, [], None)"
    by (rule no_reconnect_before_connect) (simp add: init_def)
  have c: "\<not> is_charging (init 1 30)"
    by (simp add: init_def)
  show ?thesis
    using ev_start_battery_already_charging[OF r probes_ev_start_battery_charging c]
          r probes_ev_start_battery_charging c
    by simp
qed

text \<open>
  C4. EV charging stops: in an iteration that reaches its decision step with the
  charger read as not charging and \<open>is_charging\<close> true, an owned override leads to
  exactly one call, the disabling one with duration 0 and power 0, and once that call
  has returned both flags are false; without ownership no call and no request is
  issued and the iteration only clears \<open>is_charging\<close>.
\<close>

theorem ev_stop_disables_owned_override:
  assumes "maybe_reconnect s env = (s1, ev1, None)"
    and "read_probes env = (ev2, Inr (False, bp, bac))"
    and "is_charging s"
  shows "(manual_charge_enabled s \<longrightarrow>
            override_calls (fst (snd (tick s env))) = [SetInstantManualCharge False 0 0 ''0'']
            \<and> ((\<exists>v. snd (set_instant_manual_charge (sigen env) False 0 0 default_mode) = Inr v)
                 \<longrightarrow> \<not> manual_charge_enabled (fst (tick s env))
                      \<and> \<not> is_charging (fst (tick s env))))
         \<and> (\<not> manual_charge_enabled s \<longrightarrow>
              filter is_override_event (fst (snd (tick s env))) = []
              \<and> fst (tick s env) = s1\<lparr>is_charging := False\<rparr>
              \<and> \<not> manual_charge_enabled (fst (tick s env)))"
proof -
  have c1: "is_charging s1" and m1: "manual_charge_enabled s1 = manual_charge_enabled s"
    using assms(1,3) maybe_reconnect_flags(1,2) by blast+
  obtain s2 ev3 r where h: "handle_state_changes s1 (sigen env) False bp bac = (s2, ev3, r)"
    by (metis prod_cases3)
  note td = tick_decision[OF assms(1,2) h]
  have calls: "override_calls (fst (set_instant_manual_charge (sigen env) False 0 0 default_mode))
      = [SetInstantManualCharge False 0 0 ''0'']"
    by (simp add: set_instant_manual_charge_calls default_mode_def)
  show ?thesis
  proof (cases "manual_charge_enabled s")
    case True
    have hs: "(s2, ev3, r) =
        (case set_instant_manual_charge (sigen env) False 0 0 default_mode of
           (evs, Inl e) \<Rightarrow> (s1, evs, Some e)
         | (evs, Inr _) \<Rightarrow>
             (s1\<lparr>manual_charge_enabled := False, is_charging := False\<rparr>, evs, None))"
      using h c1 m1 True by (simp add: handle_state_changes_def)
    have ev3: "override_calls ev3 = [SetInstantManualCharge False 0 0 ''0'']"
      using hs calls by (auto split: prod.splits sum.splits)
    have st: "\<not> manual_charge_enabled s2 \<and> \<not> is_charging s2"
      if "\<exists>v. snd (set_instant_manual_charge (sigen env) False 0 0 default_mode) = Inr v"
      using hs that by (auto split: prod.splits sum.splits)
    show ?thesis
      using True ev3 st by (simp add: td(1) td(3))
  next
    case False
    have hs: "(s2, ev3, r) = (s1\<lparr>is_charging := False\<rparr>, [], None)"
      using h c1 m1 False by (simp add: handle_state_changes_def)
    show ?thesis
      using False hs m1 by (simp add: td(1) td(2))
  qed
qed

theorem ev_stop_disables_owned_override_witness:
  "maybe_reconnect ((init 1 30)\<lparr>is_charging := True, manual_charge_enabled := True\<rparr>)
      (quiet_env ev_off (cloud (flow (PyInt 1000)) None)) =
     ((init 1 30)\<lparr>is_charging := True, manual_charge_enabled := True\<rparr>, [], None)
   \<and> read_probes (quiet_env ev_off (cloud (flow (PyInt 1000)) None)) =
       ([ZappiRefresh, GetEnergyFlow], Inr (False, PyInt 1000, True))
   \<and> snd (set_instant_manual_charge (cloud (flow (PyInt 1000)) None) False 0 0 default_mode) =
       Inr (PyStr ''ok'')
   \<and> override_calls (fst (snd (tick
         ((init 1 30)\<lparr>is_charging := True, manual_charge_enabled := True\<rparr>)
         (quiet_env ev_off (cloud (flow (PyInt 1000)) None))))) =
       [SetInstantManualCharge False 0 0 ''0'']
   \<and> \<not> manual_charge_enabled (fst (tick
         ((init 1 30)\<lparr>is_charging := True, manual_charge_enabled := True\<rparr>)
         (quiet_env ev_off (cloud (flow (PyInt 1000)) None))))
   \<and> \<not> is_charging (fst (tick
         ((init 1 30)\<lparr>is_charging := True, manual_charge_enabled := True\<rparr>)
         (quiet_env ev_off (cloud (flow (PyInt 1000)) None))))"
proof -
  let ?s = "(init 1 30)\<lparr>is_charging := True, manual_charge_enabled := True\<rparr>"
  let ?env = "quiet_env ev_off (cloud (flow (PyInt 1000)) None)"
  have r: "maybe_reconnect ?s ?env = (?s, [], None)"
    by (rule no_reconnect_before_connect) (simp add: init_def)
  have c: "is_charging ?s" and m: "manual_charge_enabled ?s"
    by simp_all
  have ok: "snd (set_instant_manual_charge (sigen ?env) False 0 0 default_mode) =
      Inr (PyStr ''ok'')"
    by (simp add: eval_defs)
  have sg: "sigen ?env = cloud (flow (PyInt 1000)) None"
    by (simp add: quiet_env_def)
  show ?thesis
    using ev_stop_disables_owned_override[OF r probes_ev_stop c] r probes_ev_stop m ok sg
    by simp
qed

section \<open>The battery snapshot\<close>



text \<open>
  C10. A boolean under the key of the battery power counts as a number: \<open>True\<close> makes
  \<open>battery_already_charging\<close> true, as the integer 1 does, and \<open>False\<close> makes it false,
  as the integer 0 does; neither is treated as an unknown value.
\<close>

theorem boolean_power_is_numeric:
  "isinstance_int_float (PyBool b)
   \<and> battery_already_charging (PyBool True) = Inr True
   \<and> battery_already_charging (PyBool False) = Inr False
   \<and> battery_already_charging (PyBool True) = battery_already_charging (PyInt 1)
   \<and> battery_already_charging (PyBool False) = battery_already_charging (PyInt 0)
   \<and> idle_status (PyBool False) = Inr ''idle''"
  by (simp add: battery_already_charging_def idle_status_def)

section \<open>The probe of the charger and the override command\<close>

text \<open>
  C5. \<open>get_zappi_charging_status\<close> returns true exactly when the refresh and the reads
  succeed, the operating state is Charging or Boosting and the plug state is Charging.
  When the refresh or the first read that fails raises an \<open>Exception\<close>, it returns
  false and raises nothing. All it does on the outside world is the refresh: no override
  call and no request.
\<close>

theorem zappi_charging_status_probe:
  "(snd (get_zappi_charging_status z) = Inr True \<longleftrightarrow>
      refresh z = None
      \<and> (\<exists>st plug cm. status z = Inr st \<and> plug_status z = Inr plug \<and> charge_mode z = Inr cm
            \<and> st \<in> {''Charging'', ''Boosting''} \<and> plug = ''Charging''))
   \<and> (refresh z = Some (Exception msg) \<longrightarrow> snd (get_zappi_charging_status z) = Inr False)
   \<and> (refresh z = None \<and> status z = Inl (Exception msg) \<longrightarrow>
        snd (get_zappi_charging_status z) = Inr False)
   \<and> (refresh z = None \<and> status z = Inr st' \<and> plug_status z = Inl (Exception msg) \<longrightarrow>
        snd (get_zappi_charging_status z) = Inr False)
   \<and> (refresh z = None \<and> status z = Inr st' \<and> plug_status z = Inr plug'
        \<and> charge_mode z = Inl (Exception msg) \<longrightarrow>
        snd (get_zappi_charging_status z) = Inr False)
   \<and> fst (get_zappi_charging_status z) = [ZappiRefresh]
   \<and> filter is_override_event (fst (get_zappi_charging_status z)) = []"
proof (intro conjI impI)
  show "snd (get_zappi_charging_status z) = Inr True \<longleftrightarrow>
      refresh z = None
      \<and> (\<exists>st plug cm. status z = Inr st \<and> plug_status z = Inr plug \<and> charge_mode z = Inr cm
            \<and> st \<in> {''Charging'', ''Boosting''} \<and> plug = ''Charging'')"
    by (cases "refresh z"; cases "status z"; cases "plug_status z"; cases "charge_mode z")
       (auto simp: get_zappi_charging_status_def zappi_try_def except_Exception_def
          charging_statuses_def)
  show "snd (get_zappi_charging_status z) = Inr False" if "refresh z = Some (Exception msg)"
    using that
    by (simp add: get_zappi_charging_status_def zappi_try_def except_Exception_def)
  show "snd (get_zappi_charging_status z) = Inr False"
    if "refresh z = None \<and> status z = Inl (Exception msg)"
    using that
    by (simp add: get_zappi_charging_status_def zappi_try_def except_Exception_def)
  show "snd (get_zappi_charging_status z) = Inr False"
    if "refresh z = None \<and> status z = Inr st' \<and> plug_status z = Inl (Exception msg)"
    using that
    by (simp add: get_zappi_charging_status_def zappi_try_def except_Exception_def)
  show "snd (get_zappi_charging_status z) = Inr False"
    if "refresh z = None \<and> status z = Inr st' \<and> plug_status z = Inr plug'
        \<and> charge_mode z = Inl (Exception msg)"
    using that
    by (simp add: get_zappi_charging_status_def zappi_try_def except_Exception_def)
  show "fst (get_zappi_charging_status z) = [ZappiRefresh]"
    by (simp add: get_zappi_charging_status_def)
  then show "filter is_override_event (fst (get_zappi_charging_status z)) = []"
    by simp
qed

theorem zappi_charging_status_probe_witness:
  "snd (get_zappi_charging_status (zappi_reading ''Boosting'' ''Charging'')) = Inr True
   \<and> refresh ((zappi_reading ''Charging'' ''Charging'')\<lparr>refresh := Some (Exception ''timeout'')\<rparr>)
       = Some (Exception ''timeout'')
   \<and> snd (get_zappi_charging_status
       ((zappi_reading ''Charging'' ''Charging'')\<lparr>refresh := Some (Exception ''timeout'')\<rparr>))
       = Inr False
   \<and> snd (get_zappi_charging_status (zappi_reading ''Charging'' ''EV Connected'')) = Inr False"
proof -
  let ?z = "(zappi_reading ''Charging'' ''Charging'')\<lparr>refresh := Some (Exception ''timeout'')\<rparr>"
  have r: "refresh ?z = Some (Exception ''timeout'')"
    by (simp add: zappi_reading_def)
  have b: "snd (get_zappi_charging_status (zappi_reading ''Boosting'' ''Charging'')) = Inr True"
    by (simp add: eval_defs)
  have c: "snd (get_zappi_charging_status (zappi_reading ''Charging'' ''EV Connected''))
      = Inr False"
    by (simp add: eval_defs)
  show ?thesis
    using zappi_charging_status_probe[where z = ?z and msg = "''timeout''"] r b c
    by simp
qed



section \<open>Failure containment\<close>

text \<open>
  C7. The iteration in which the override command raises: it reached its decision
  step, issued the call, and the call raised. Then \<open>is_charging\<close> and
  \<open>manual_charge_enabled\<close> are what they were when the iteration began, the call was
  issued once and the exception left the \<open>try\<close>; and a next iteration that reaches its
  decision step with the same charger reading and the same battery reading issues the
  same call again.
\<close>

theorem control_failure_leaves_state:
  assumes "maybe_reconnect s env = (s1, ev1, None)"
    and "read_probes env = (ev2, Inr (zc, bp, bac))"
    and "override_calls (fst (snd (tick s env))) \<noteq> []"
    and "snd (set_instant_manual_charge (sigen env) en d p m) = Inl e"
  shows "is_charging (fst (tick s env)) = is_charging s
         \<and> manual_charge_enabled (fst (tick s env)) = manual_charge_enabled s
         \<and> length (override_calls (fst (snd (tick s env)))) = 1
         \<and> snd (snd (try_body s env)) = Some e
         \<and> (\<forall>env' s1' ev1' ev2' bp'.
               maybe_reconnect (fst (tick s env)) env' = (s1', ev1', None)
               \<and> read_probes env' = (ev2', Inr (zc, bp', bac)) \<longrightarrow>
               override_calls (fst (snd (tick (fst (tick s env)) env'))) =
                 override_calls (fst (snd (tick s env))))"
proof -
  obtain s2 ev3 r where h: "handle_state_changes s1 (sigen env) zc bp bac = (s2, ev3, r)"
    by (metis prod_cases3)
  note td = tick_decision[OF assms(1,2) h]
  have issued: "override_calls ev3 \<noteq> []"
    using assms(3) td(3) by simp
  obtain en' d' p' where
    ev3: "ev3 = fst (set_instant_manual_charge (sigen env) en' d' p' default_mode)" and
    r: "r = (case snd (set_instant_manual_charge (sigen env) en' d' p' default_mode) of
               Inl e \<Rightarrow> Some e | Inr _ \<Rightarrow> None)" and
    same: "r \<noteq> None \<longrightarrow> s2 = s1"
    using handle_state_changes_issued[OF h issued] by blast
  have "snd (set_instant_manual_charge (sigen env) en' d' p' default_mode) = Inl e"
    using assms(4)
      set_instant_manual_charge_outcome[of "sigen env" en' d' p' default_mode en d p m]
    by simp
  then have re: "r = Some e"
    using r by simp
  then have s2: "s2 = s1"
    using same by simp
  have st: "fst (tick s env) = s1"
    using td(1) s2 by simp
  have one: "length (override_calls (fst (snd (tick s env)))) = 1"
    using td(3) ev3 by (simp add: set_instant_manual_charge_calls)
  have left: "snd (snd (try_body s env)) = Some e"
    using try_body_decision[OF assms(1,2) h] re by simp
  have again: "override_calls (fst (snd (tick s1 env'))) = override_calls (fst (snd (tick s env)))"
    if a: "maybe_reconnect s1 env' = (s1', ev1', None)"
      and b: "read_probes env' = (ev2', Inr (zc, bp', bac))"
    for env' s1' ev1' ev2' bp'
  proof -
    obtain s2' ev3' r' where
      h': "handle_state_changes s1' (sigen env') zc bp' bac = (s2', ev3', r')"
      by (metis prod_cases3)
    have "override_calls ev3' = override_calls ev3"
      using handle_state_changes_calls[OF h'] handle_state_changes_calls[OF h]
        maybe_reconnect_flags(1,2,3)[OF a]
      by simp
    then show ?thesis
      using tick_decision(3)[OF a b h'] td(3) by simp
  qed
  show ?thesis
    using st one left again maybe_reconnect_flags(1,2)[OF assms(1)]
    by simp
qed

theorem control_failure_leaves_state_witness:
  "maybe_reconnect (init 1 30)
      (quiet_env ev_on (cloud (flow (PyInt 0)) (Some (Exception ''ClientError'')))) =
     (init 1 30, [], None)
   \<and> read_probes (quiet_env ev_on (cloud (flow (PyInt 0)) (Some (Exception ''ClientError'')))) =
       ([ZappiRefresh, GetEnergyFlow], Inr (True, PyInt 0, False))
   \<and> override_calls (fst (snd (tick (init 1 30)
         (quiet_env ev_on (cloud (flow (PyInt 0)) (Some (Exception ''ClientError''))))))) =
       [SetInstantManualCharge True 30 1 ''0'']
   \<and> snd (set_instant_manual_charge
         (sigen (quiet_env ev_on (cloud (flow (PyInt 0)) (Some (Exception ''ClientError'')))))
         True 30 1 default_mode) = Inl (Exception ''ClientError'')
   \<and> \<not> is_charging (fst (tick (init 1 30)
         (quiet_env ev_on (cloud (flow (PyInt 0)) (Some (Exception ''ClientError''))))))
   \<and> \<not> manual_charge_enabled (fst (tick (init 1 30)
         (quiet_env ev_on (cloud (flow (PyInt 0)) (Some (Exception ''ClientError''))))))
   \<and> override_calls (fst (snd (tick
         (fst (tick (init 1 30)
            (quiet_env ev_on (cloud (flow (PyInt 0)) (Some (Exception ''ClientError''))))))
         (quiet_env ev_on (cloud (flow (PyInt 0)) None))))) =
       [SetInstantManualCharge True 30 1 ''0'']"
proof -
  let ?env = "quiet_env ev_on (cloud (flow (PyInt 0)) (Some (Exception ''ClientError'')))"
  let ?env' = "quiet_env ev_on (cloud (flow (PyInt 0)) None)"
  have r: "maybe_reconnect (init 1 30) ?env = (init 1 30, [], None)"
    by (rule no_reconnect_before_connect) (simp add: init_def)
  have pr: "read_probes ?env = ([ZappiRefresh, GetEnergyFlow], Inr (True, PyInt 0, False))"
    by (simp add: eval_defs)
  have t: "tick (init 1 30) ?env =
      (init 1 30,
       [ZappiRefresh, GetEnergyFlow, SetInstantManualCharge True 30 1 ''0'',
        HttpRequest (manual_charge_request (sigen ?env) True 30 1 ''0''), Sleep 30],
       Continue)"
    by (simp add: eval_defs)
  have calls: "override_calls (fst (snd (tick (init 1 30) ?env))) =
      [SetInstantManualCharge True 30 1 ''0'']"
    by (simp add: t)
  have issued: "override_calls (fst (snd (tick (init 1 30) ?env))) \<noteq> []"
    by (simp add: t)
  have raises: "snd (set_instant_manual_charge (sigen ?env) True 30 1 default_mode) =
      Inl (Exception ''ClientError'')"
    by (simp add: eval_defs)
  have st: "fst (tick (init 1 30) ?env) = init 1 30"
    by (simp add: t)
  have r': "maybe_reconnect (fst (tick (init 1 30) ?env)) ?env' = (init 1 30, [], None)"
    unfolding st by (rule no_reconnect_before_connect) (simp add: init_def)
  have pr': "read_probes ?env' = ([ZappiRefresh, GetEnergyFlow], Inr (True, PyInt 0, False))"
    by (simp add: eval_defs)
  note c = control_failure_leaves_state[OF r pr issued raises]
  have flags: "is_charging (fst (tick (init 1 30) ?env)) = is_charging (init 1 30)"
    "manual_charge_enabled (fst (tick (init 1 30) ?env)) = manual_charge_enabled (init 1 30)"
    using c by blast+
  have again: "override_calls (fst (snd (tick (fst (tick (init 1 30) ?env)) ?env'))) =
      override_calls (fst (snd (tick (init 1 30) ?env)))"
    using c r' pr' by blast
  have f: "\<not> is_charging (init 1 30)" "\<not> manual_charge_enabled (init 1 30)"
    by (simp_all add: init_def)
  show ?thesis
    using r pr calls raises flags f again by simp
qed

text \<open>
  C8. Errors never end the monitoring. An iteration in which everything that is raised
  in the \<open>try\<close> (by the reconnection, the probes, the decision step, the override
  command or the sleep) is an \<open>Exception\<close>, and whose handler's sleep is not
  interrupted, ends with a sleep and goes on to the next iteration; a loop that meets
  only such iterations is still running after all of them, having slept at least once
  in each. When the loop does return, a KeyboardInterrupt was raised in some iteration;
  when an exception leaves it, that exception is not an \<open>Exception\<close> or interrupted the
  handler's sleep.
\<close>

theorem errors_never_stop_monitoring:
  "(list_all is_Exception (raised_in_try env) \<and> sleep_in_handler env = None \<longrightarrow>
      snd (snd (tick s env)) = Continue
      \<and> (\<exists>evs. fst (snd (tick s env)) = evs @ [Sleep (poll_interval s)]))
   \<and> (list_all (\<lambda>env. list_all is_Exception (raised_in_try env)
                        \<and> sleep_in_handler env = None) envs \<longrightarrow>
        snd (snd (monitor_loop s envs)) = StillRunning
        \<and> length envs \<le> length (filter is_sleep (fst (snd (monitor_loop s envs)))))
   \<and> (snd (snd (monitor_loop s envs)) = Returned \<longrightarrow>
        (\<exists>env \<in> set envs. KeyboardInterrupt \<in> set (raised_in_try env)))
   \<and> (snd (snd (monitor_loop s envs)) = Raised e \<longrightarrow>
        (\<exists>env \<in> set envs. (e \<in> set (raised_in_try env) \<and> \<not> is_Exception e)
           \<or> sleep_in_handler env = Some e))"
proof (intro conjI impI)
  assume q: "list_all is_Exception (raised_in_try env) \<and> sleep_in_handler env = None"
  show "snd (snd (tick s env)) = Continue"
    using q tick_survives(1) by blast
  show "\<exists>evs. fst (snd (tick s env)) = evs @ [Sleep (poll_interval s)]"
    using q tick_survives(2) by blast
next
  have run: "running (s\<lparr>running := True\<rparr>)"
    by simp
  assume qs: "list_all (\<lambda>env. list_all is_Exception (raised_in_try env)
                        \<and> sleep_in_handler env = None) envs"
  show "snd (snd (monitor_loop s envs)) = StillRunning"
    unfolding monitor_loop_def using while_running_survives[OF run qs] by blast
  show "length envs \<le> length (filter is_sleep (fst (snd (monitor_loop s envs))))"
    unfolding monitor_loop_def using while_running_survives[OF run qs] by blast
next
  have run: "running (s\<lparr>running := True\<rparr>)"
    by simp
  assume "snd (snd (monitor_loop s envs)) = Returned"
  then show "\<exists>env \<in> set envs. KeyboardInterrupt \<in> set (raised_in_try env)"
    unfolding monitor_loop_def using while_running_stops[OF run, of envs e] by blast
next
  have run: "running (s\<lparr>running := True\<rparr>)"
    by simp
  assume "snd (snd (monitor_loop s envs)) = Raised e"
  then show "\<exists>env \<in> set envs. (e \<in> set (raised_in_try env) \<and> \<not> is_Exception e)
           \<or> sleep_in_handler env = Some e"
    unfolding monitor_loop_def using while_running_stops[OF run, of envs e] by blast
qed

theorem errors_never_stop_monitoring_witness:
  "raised_in_try (quiet_env ev_on (cloud (flow (PyInt 0)) (Some (Exception ''ClientError''))))
     = [Exception ''ClientError'']
   \<and> sleep_in_handler
       (quiet_env ev_on (cloud (flow (PyInt 0)) (Some (Exception ''ClientError'')))) = None
   \<and> snd (snd (try_body (init 1 30)
       (quiet_env ev_on (cloud (flow (PyInt 0)) (Some (Exception ''ClientError''))))))
       = Some (Exception ''ClientError'')
   \<and> snd (snd (tick (init 1 30)
       (quiet_env ev_on (cloud (flow (PyInt 0)) (Some (Exception ''ClientError''))))))
       = Continue
   \<and> snd (snd (monitor_loop (init 1 30)
       [quiet_env ev_on (cloud (flow (PyInt 0)) (Some (Exception ''ClientError''))),
        quiet_env ev_on (cloud (flow (PyInt 0)) (Some (Exception ''ClientError'')))]))
       = StillRunning
   \<and> snd (snd (monitor_loop (init 1 30)
       [(quiet_env ev_on (cloud (flow (PyInt 0)) None))\<lparr>sleep := Some KeyboardInterrupt\<rparr>]))
       = Returned
   \<and> KeyboardInterrupt \<in> set (raised_in_try
       ((quiet_env ev_on (cloud (flow (PyInt 0)) None))\<lparr>sleep := Some KeyboardInterrupt\<rparr>))"
proof -
  let ?env = "quiet_env ev_on (cloud (flow (PyInt 0)) (Some (Exception ''ClientError'')))"
  let ?envK = "(quiet_env ev_on (cloud (flow (PyInt 0)) None))\<lparr>sleep := Some KeyboardInterrupt\<rparr>"
  have raised: "raised_in_try ?env = [Exception ''ClientError'']"
    by (simp add: raised_in_try_def quiet_env_def cloud_def ev_on_def zappi_reading_def)
  have quiet: "list_all is_Exception (raised_in_try ?env) \<and> sleep_in_handler ?env = None"
    by (simp add: raised) (simp add: quiet_env_def)
  have quiets: "list_all (\<lambda>env. list_all is_Exception (raised_in_try env)
                        \<and> sleep_in_handler env = None) [?env, ?env]"
    using quiet by simp
  have body: "snd (snd (try_body (init 1 30) ?env)) = Some (Exception ''ClientError'')"
    by (simp add: eval_defs)
  have returned: "snd (snd (monitor_loop (init 1 30) [?envK])) = Returned"
    by (simp add: eval_defs)
  note one = errors_never_stop_monitoring
      [where env = ?env and s = "init 1 30" and envs = "[?env, ?env]" and e = CancelledError]
  note stop = errors_never_stop_monitoring
      [where env = ?env and s = "init 1 30" and envs = "[?envK]" and e = CancelledError]
  have continue: "snd (snd (tick (init 1 30) ?env)) = Continue"
    using one quiet by blast
  have still: "snd (snd (monitor_loop (init 1 30) [?env, ?env])) = StillRunning"
    using one quiets by blast
  have "\<exists>env \<in> set [?envK]. KeyboardInterrupt \<in> set (raised_in_try env)"
    using stop returned by blast
  then have interrupt: "KeyboardInterrupt \<in> set (raised_in_try ?envK)"
    by simp
  show ?thesis
    using raised quiet body continue still returned interrupt by blast
qed

end
